theory Spec2Isabelle
  imports Main "HOL-Library.AList" "HOL-Library.Char_ord" "HOL-Library.List_Lexorder" "HOL-Library.Product_Lexorder"
    "HOL-Library.Multiset"
begin

section \<open>The games table (backend/dbQueries.js)\<close>

text \<open>
  One row of the \<open>games\<close> table, with the twelve columns that \<open>upsertGame\<close> writes.
  Instants (\<open>start_time\<close>) are milliseconds since the epoch. The table is the list of its
  rows in storage order. Text columns are compared bytewise-lexicographically. The database
  is taken to answer every well-formed statement: a lost connection is not modelled.
\<close>

record game =
  league :: string
  external_game_id :: string
  link :: "string option"
  home_team_name :: string
  home_team_logo :: "string option"
  home_team_score :: int
  away_team_name :: string
  away_team_logo :: "string option"
  away_team_score :: int
  start_time :: int
  short_detail :: string
  state :: string

type_synonym games_table = "game list"

text \<open>
  \<open>getAllGames\<close>: \<open>SELECT * FROM games ORDER BY CASE WHEN state = 'in' THEN 1 ELSE 2 END,
  league, start_time, external_game_id\<close>. Rows with equal sort keys come back in storage
  order (a stable sort of the stored rows).
\<close>

definition allGamesKey :: "game \<Rightarrow> nat \<times> string \<times> int \<times> string" where
  "allGamesKey g =
     ((if state g = ''in'' then 1 else 2), league g, start_time g, external_game_id g)"

definition getAllGames :: "games_table \<Rightarrow> game list" where
  "getAllGames tbl = sort_key allGamesKey tbl"

text \<open>
  \<open>getGamesByLeague\<close>: \<open>SELECT * FROM games WHERE league = $1 ORDER BY start_time ASC\<close>.
\<close>

definition getGamesByLeague :: "games_table \<Rightarrow> string \<Rightarrow> game list" where
  "getGamesByLeague tbl leagueName =
     sort_key start_time (filter (\<lambda>g. league g = leagueName) tbl)"

section \<open>Filter evaluation (backend/api.js, getFilteredGames)\<close>

definition knownLeagues :: "string list" where
  "knownLeagues = [''NFL'', ''NBA'', ''MLB'', ''NHL'', ''MLS'', ''NCAAF'', ''NCAAB'']"

definition startsWith :: "string \<Rightarrow> string \<Rightarrow> bool" where
  "startsWith s p = (take (length p) s = p)"

text \<open>\<open>String.prototype.replace\<close> with a string pattern: the first occurrence only.\<close>

fun replaceFirst :: "string \<Rightarrow> string \<Rightarrow> string \<Rightarrow> string" where
  "replaceFirst pat rep [] = (if pat = [] then rep else [])"
| "replaceFirst pat rep (c # cs) =
     (if take (length pat) (c # cs) = pat then rep @ drop (length pat) (c # cs)
      else c # replaceFirst pat rep cs)"

definition leagueFilters :: "string list \<Rightarrow> string list" where
  "leagueFilters filters = filter (\<lambda>f. f \<in> set knownLeagues) filters"

definition stateFilters :: "string list \<Rightarrow> string list" where
  "stateFilters filters =
     map (\<lambda>f. replaceFirst ''state_'' '''' f) (filter (\<lambda>f. startsWith f ''state_'') filters)"

text \<open>
  The selection is \<open>None\<close> when the caller passes \<open>undefined\<close> or \<open>null\<close> (the
  \<open>!filters\<close> test). The loop over the league tokens concatenates one
  \<open>getGamesByLeague\<close> result per token, in token order.
\<close>

definition getFilteredGames :: "games_table \<Rightarrow> string list option \<Rightarrow> game list" where
  "getFilteredGames tbl sel =
     (case sel of
        None \<Rightarrow> getAllGames tbl
      | Some filters \<Rightarrow>
          if filters = [] then getAllGames tbl
          else if leagueFilters filters \<noteq> [] then
            (let allFilteredGames =
                   concat (map (getGamesByLeague tbl) (leagueFilters filters))
             in if stateFilters filters \<noteq> []
                then filter (\<lambda>g. state g \<in> set (stateFilters filters)) allFilteredGames
                else allFilteredGames)
          else if stateFilters filters \<noteq> [] then
            filter (\<lambda>g. state g \<in> set (stateFilters filters)) (getAllGames tbl)
          else getAllGames tbl)"

text \<open>A row with the given league, id, start time and state; the other columns fixed.\<close>

definition mkGame :: "string \<Rightarrow> string \<Rightarrow> int \<Rightarrow> string \<Rightarrow> game" where
  "mkGame l i t s =
     \<lparr> league = l, external_game_id = i, link = None,
       home_team_name = ''TBD'', home_team_logo = None, home_team_score = 0,
       away_team_name = ''TBD'', away_team_logo = None, away_team_score = 0,
       start_time = t, short_detail = ''N/A'', state = s \<rparr>"

text \<open>
  The tokens the client offers (frontend/src/App.jsx, \<open>toggleOptions\<close>): the seven league
  tokens above and three state tokens. A token outside both lists is what a client calls
  unrecognized.
\<close>

definition knownStateTokens :: "string list" where
  "knownStateTokens = [''state_pre'', ''state_in'', ''state_post'']"

definition unrecognized :: "string \<Rightarrow> bool" where
  "unrecognized f = (f \<notin> set knownLeagues \<and> f \<notin> set knownStateTokens)"

definition removeUnrecognized :: "string list \<Rightarrow> string list" where
  "removeUnrecognized filters = filter (\<lambda>f. \<not> unrecognized f) filters"

text \<open>
  The tokens \<open>getFilteredGames\<close> itself acts on: a league token, or any token with the
  prefix \<open>state_\<close>, whatever follows the prefix.
\<close>

definition codeToken :: "string \<Rightarrow> bool" where
  "codeToken f = (f \<in> set knownLeagues \<or> startsWith f ''state_'')"

definition dropIgnored :: "string list \<Rightarrow> string list" where
  "dropIgnored filters = filter codeToken filters"


section \<open>Ingest (backend/ingest.js, backend/dbQueries.js)\<close>

datatype error = FetchError | RangeError | SqlSyntaxError

text \<open>
  An entry of \<open>leagueConfigs\<close>, and of the list handed to \<open>ingestData\<close>. The slug is
  \<open>None\<close> when \<open>getSlugForLeague\<close> finds no configuration and passes \<open>null\<close>.
\<close>

record league_config =
  name :: string
  slug :: "string option"

text \<open>
  What the transform step reads of one element of \<open>response.data.events\<close>. The score is
  the result of \<open>parseInt\<close> (\<open>None\<close> for \<open>NaN\<close>); the date is the instant of
  \<open>new Date(game.date)\<close>, \<open>None\<close> for an invalid date, where \<open>toISOString\<close> throws a
  \<open>RangeError\<close>.
\<close>

record espn_competitor =
  shortDisplayName :: "string option"
  logo :: "string option"
  score :: "int option"

record espn_event =
  event_id :: string
  href :: "string option"
  team1 :: "espn_competitor option"
  team2 :: "espn_competitor option"
  date :: "int option"
  shortDetail :: "string option"
  status_state :: "string option"

text \<open>JavaScript's \<open>x || d\<close> on an optional string: a missing or empty string gives \<open>d\<close>.\<close>

definition orString :: "string option \<Rightarrow> string \<Rightarrow> string" where
  "orString x d = (case x of None \<Rightarrow> d | Some s \<Rightarrow> if s = [] then d else s)"

definition orNull :: "string option \<Rightarrow> string option" where
  "orNull x = (case x of None \<Rightarrow> None | Some s \<Rightarrow> if s = [] then None else Some s)"

definition orZero :: "int option \<Rightarrow> int" where
  "orZero x = (case x of None \<Rightarrow> 0 | Some n \<Rightarrow> n)"

definition cleanGame :: "string \<Rightarrow> espn_event \<Rightarrow> error + game" where
  "cleanGame leagueName ev =
     (case date ev of
        None \<Rightarrow> Inl RangeError
      | Some t \<Rightarrow> Inr
          \<lparr> league = leagueName, external_game_id = event_id ev, link = orNull (href ev),
            home_team_name = orString (Option.bind (team1 ev) shortDisplayName) ''TBD'',
            home_team_logo = orNull (Option.bind (team1 ev) logo),
            home_team_score = orZero (Option.bind (team1 ev) score),
            away_team_name = orString (Option.bind (team2 ev) shortDisplayName) ''TBD'',
            away_team_logo = orNull (Option.bind (team2 ev) logo),
            away_team_score = orZero (Option.bind (team2 ev) score),
            start_time = t,
            short_detail = orString (shortDetail ev) ''N/A'',
            state = orString (status_state ev) ''N/A'' \<rparr>)"

text \<open>\<open>games.map(...)\<close>: the first event that throws ends the whole transform.\<close>

fun cleanedData :: "string \<Rightarrow> espn_event list \<Rightarrow> error + game list" where
  "cleanedData leagueName [] = Inr []"
| "cleanedData leagueName (ev # evs) =
     (case cleanGame leagueName ev of
        Inl e \<Rightarrow> Inl e
      | Inr g \<Rightarrow> (case cleanedData leagueName evs of Inl e \<Rightarrow> Inl e | Inr gs \<Rightarrow> Inr (g # gs)))"

text \<open>
  \<open>upsertGame\<close>: \<open>INSERT ... ON CONFLICT (league, external_game_id) DO UPDATE\<close> of every
  other column. A row with the same key is overwritten where it is, a new key is appended.
\<close>

fun upsertGame :: "game \<Rightarrow> games_table \<Rightarrow> games_table" where
  "upsertGame g [] = [g]"
| "upsertGame g (r # rs) =
     (if league r = league g \<and> external_game_id r = external_game_id g then g # rs
      else r # upsertGame g rs)"

text \<open>
  \<open>clearTable\<close>: \<open>DELETE FROM games WHERE league IN ($1, ..., $n)\<close>. With no league the
  statement reads \<open>IN ()\<close>, which the database rejects.
\<close>

definition clearTable :: "league_config list \<Rightarrow> games_table \<Rightarrow> error + games_table" where
  "clearTable leaguesToIngest tbl =
     (if leaguesToIngest = [] then Inl SqlSyntaxError
      else Inr (filter (\<lambda>g. league g \<notin> set (map name leaguesToIngest)) tbl))"

text \<open>
  What one call of \<open>ingestData\<close> leaves behind: the table, the leagues for which
  \<open>axios.get\<close> was called, the leagues whose upserts completed, and the errors written by
  \<open>console.error\<close>.
\<close>

record ingest_result =
  table :: games_table
  fetched :: "string list"
  upsertedLeagues :: "string list"
  logged :: "error list"

type_synonym fetcher = "string option \<Rightarrow> error + espn_event list option"

text \<open>
  One iteration of the \<open>for\<close> loop up to the upserts: the request for the league's slug
  (\<open>Inl\<close> when \<open>axios.get\<close> rejects), \<open>response.data?.events || []\<close>, and the transform.
\<close>

definition leagueGames :: "fetcher \<Rightarrow> league_config \<Rightarrow> error + game list" where
  "leagueGames fetch c =
     (case fetch (slug c) of
        Inl e \<Rightarrow> Inl e
      | Inr events \<Rightarrow>
          cleanedData (name c) (case events of None \<Rightarrow> [] | Some evs \<Rightarrow> evs))"

text \<open>
  The \<open>try\<close> block encloses the whole \<open>for\<close> loop: the first exception leaves the loop,
  is logged by the \<open>catch\<close>, and \<open>ingestData\<close> returns.
\<close>

fun ingestLoop :: "fetcher \<Rightarrow> league_config list \<Rightarrow> ingest_result \<Rightarrow> ingest_result" where
  "ingestLoop fetch [] r = r"
| "ingestLoop fetch (c # cs) r =
     (let r1 = r\<lparr>fetched := fetched r @ [name c]\<rparr>
      in case leagueGames fetch c of
           Inl e \<Rightarrow> r1\<lparr>logged := logged r1 @ [e]\<rparr>
         | Inr gs \<Rightarrow>
             ingestLoop fetch cs
               (r1\<lparr>table := foldl (\<lambda>t g. upsertGame g t) (table r1) gs,
                   upsertedLeagues := upsertedLeagues r1 @ [name c]\<rparr>))"

text \<open>\<open>clearTable\<close> is awaited before the \<open>try\<close>: its failure rejects \<open>ingestData\<close>.\<close>

definition ingestData :: "fetcher \<Rightarrow> league_config list \<Rightarrow> games_table \<Rightarrow> error + ingest_result" where
  "ingestData fetch leaguesToIngest tbl =
     (case clearTable leaguesToIngest tbl of
        Inl e \<Rightarrow> Inl e
      | Inr cleared \<Rightarrow>
          Inr (ingestLoop fetch leaguesToIngest
                 \<lparr>table = cleared, fetched = [], upsertedLeagues = [], logged = []\<rparr>))"

text \<open>Test data: an upstream event with the given id, date and state.\<close>

definition mkEvent :: "string \<Rightarrow> int \<Rightarrow> string \<Rightarrow> espn_event" where
  "mkEvent i t s =
     \<lparr> event_id = i, href = None, team1 = None, team2 = None, date = Some t,
       shortDetail = None, status_state = Some s \<rparr>"

text \<open>Test data: two configured leagues, and an upstream that fails for the NFL slug.\<close>

definition cfgNFL :: league_config where
  "cfgNFL = \<lparr>name = ''NFL'', slug = Some ''football/nfl''\<rparr>"

definition cfgNBA :: league_config where
  "cfgNBA = \<lparr>name = ''NBA'', slug = Some ''basketball/nba''\<rparr>"

definition fetchNflDown :: fetcher where
  "fetchNflDown s =
     (if s = Some ''football/nfl'' then Inl FetchError
      else Inr (Some [mkEvent ''9'' 5 ''pre'']))"


section \<open>Connections and messages (backend/api.js)\<close>

text \<open>
  A connection is identified by a number. Of an outbound envelope the model keeps the type
  and the payload fields; the timestamp and the human-readable text are left out.
  \<open>FilteredData\<close> carries \<open>data\<close>, \<open>filters\<close>, \<open>count\<close> and whether \<open>is_refresh\<close> is set.
\<close>

type_synonym conn = nat

datatype message =
    Welcome
  | FilteredData "game list" "string list option" nat bool
  | GamesUpdated string
  | Echo string
  | NewData
  | ErrorMessage string

text \<open>
  A received frame after \<open>JSON.parse\<close>, by its \<open>type\<close> field; \<open>InvalidJson\<close> is a frame
  on which \<open>JSON.parse\<close> throws. The \<open>filters\<close> field of a filter request is \<open>None\<close>
  when the frame has none.
\<close>

datatype inbound =
    Connection
  | FilterRequest "string list option"
  | UserMessage string
  | TestRequest
  | UnknownType
  | InvalidJson

text \<open>
  The module state: whether \<open>wss\<close> is set, the \<open>clients\<close> set in insertion order, the
  \<open>clientFilters\<close> map, which sockets are in state \<open>OPEN\<close>, and every call of
  \<open>ws.send\<close> so far, in order, with the socket it was made on.
\<close>

record api_state =
  wssUp :: bool
  clients :: "conn list"
  clientFilters :: "conn \<rightharpoonup> string list option"
  isOpen :: "conn \<Rightarrow> bool"
  sent :: "(conn \<times> message) list"

definition send :: "conn \<Rightarrow> message \<Rightarrow> api_state \<Rightarrow> api_state" where
  "send ws m st = st\<lparr>sent := sent st @ [(ws, m)]\<rparr>"

definition onConnection :: "conn \<Rightarrow> api_state \<Rightarrow> api_state" where
  "onConnection ws st =
     send ws Welcome
       (st\<lparr>clients := (if ws \<in> set (clients st) then clients st else clients st @ [ws]),
           clientFilters := (clientFilters st)(ws \<mapsto> Some [])\<rparr>)"

definition onClose :: "conn \<Rightarrow> api_state \<Rightarrow> api_state" where
  "onClose ws st =
     st\<lparr>clients := removeAll ws (clients st),
        clientFilters := (clientFilters st)(ws := None)\<rparr>"

text \<open>The \<open>message\<close> handler of one connection, reading the table as it stands.\<close>

fun onMessage :: "conn \<Rightarrow> inbound \<Rightarrow> games_table \<Rightarrow> api_state \<Rightarrow> api_state" where
  "onMessage ws Connection tbl st =
     (let initialGames = getFilteredGames tbl (Some [])
      in send ws (FilteredData initialGames (Some []) (length initialGames) False) st)"
| "onMessage ws (FilterRequest fs) tbl st =
     (let st1 = st\<lparr>clientFilters := (clientFilters st)(ws \<mapsto> fs)\<rparr>;
          filteredGames = getFilteredGames tbl fs
      in send ws (FilteredData filteredGames fs (length filteredGames) False) st1)"
| "onMessage ws (UserMessage m) tbl st = send ws (Echo m) st"
| "onMessage ws TestRequest tbl st = send ws NewData st"
| "onMessage ws UnknownType tbl st = send ws (ErrorMessage ''Unknown message type'') st"
| "onMessage ws InvalidJson tbl st = send ws (ErrorMessage ''Invalid JSON format'') st"

text \<open>
  \<open>broadcastUpdatedGames\<close>: the change notice to every open client, then to every open
  client the snapshot for its stored selection (\<open>clientFilters.get(client) || []\<close>),
  marked as a refresh.
\<close>

definition currentFilters :: "api_state \<Rightarrow> conn \<Rightarrow> string list option" where
  "currentFilters st client =
     (case clientFilters st client of Some (Some fs) \<Rightarrow> Some fs | _ \<Rightarrow> Some [])"

definition refreshFor :: "games_table \<Rightarrow> api_state \<Rightarrow> conn \<Rightarrow> conn \<times> message" where
  "refreshFor tbl st client =
     (let refreshedData = getFilteredGames tbl (currentFilters st client)
      in (client, FilteredData refreshedData (currentFilters st client) (length refreshedData) True))"

definition broadcastUpdatedGames :: "string option \<Rightarrow> games_table \<Rightarrow> api_state \<Rightarrow> api_state" where
  "broadcastUpdatedGames optionalLeague tbl st =
     (if \<not> wssUp st \<or> clients st = [] then st
      else
        let openClients = filter (isOpen st) (clients st);
            notice = GamesUpdated (orString optionalLeague ''ALL'')
        in st\<lparr>sent := sent st @ map (\<lambda>c. (c, notice)) openClients
                          @ map (refreshFor tbl st) openClients\<rparr>)"

text \<open>Test data: a server with two connected, open clients and nothing sent yet.\<close>

definition twoClients :: api_state where
  "twoClients =
     \<lparr>wssUp = True, clients = [1, 2],
      clientFilters = [1 \<mapsto> Some [''NBA''], 2 \<mapsto> Some [''MLB'']],
      isOpen = (\<lambda>_. True), sent = []\<rparr>"

section \<open>The poll scheduler (backend/dailySchedule.js)\<close>

definition excludedStates :: "string list" where
  "excludedStates = [''post'', ''completed'', ''final'']"

text \<open>\<open>getTimeInfo\<close>: the instants of today's and tomorrow's midnight, as the database gives them.\<close>

record time_info =
  currentDay :: int
  nextDay :: int

text \<open>
  \<open>getNotFinalGamesToday\<close>: \<open>WHERE start_time >= $1 AND start_time < $2 AND
  state != ALL($3) ORDER BY start_time ASC\<close>.
\<close>

definition getNotFinalGamesToday :: "time_info \<Rightarrow> games_table \<Rightarrow> game list" where
  "getNotFinalGamesToday ti tbl =
     sort_key start_time
       (filter (\<lambda>g. currentDay ti \<le> start_time g \<and> start_time g < nextDay ti
                     \<and> state g \<notin> set excludedStates) tbl)"

text \<open>
  \<open>areAllGamesFinal\<close>: \<open>SELECT COUNT(*) ... WHERE league = $1 AND DATE(start_time) = $2
  AND state != ALL($3)\<close>, compared with zero. \<open>dateOf\<close> is the database's calendar date
  of an instant, used on both sides of the comparison.
\<close>

definition areAllGamesFinal :: "(int \<Rightarrow> int) \<Rightarrow> time_info \<Rightarrow> games_table \<Rightarrow> string \<Rightarrow> bool" where
  "areAllGamesFinal dateOf ti tbl leagueName =
     (let countNonFinal =
            length (filter (\<lambda>g. league g = leagueName
                                  \<and> dateOf (start_time g) = dateOf (currentDay ti)
                                  \<and> state g \<notin> set excludedStates) tbl)
      in countNonFinal = 0)"

text \<open>
  The scheduler's state. \<open>scheduledLeagueJobs\<close> is the registry object. \<open>liveJobs\<close> holds
  the recurring jobs that node-schedule has created and that have not been cancelled, each
  with the league its callback closes over; \<open>timers\<close> holds the pending one-shot jobs with
  their date and league; \<open>nextJobId\<close> numbers the recurring jobs as they are created.
\<close>

record scheduler =
  scheduledLeagueJobs :: "string \<rightharpoonup> nat"
  liveJobs :: "(nat \<times> string) list"
  timers :: "(int \<times> string) list"
  nextJobId :: nat

definition noJobs :: scheduler where
  "noJobs = \<lparr>scheduledLeagueJobs = Map.empty, liveJobs = [], timers = [], nextJobId = 0\<rparr>"

text \<open>\<open>job.cancel()\<close>: the job fires no more.\<close>

definition cancel :: "nat \<Rightarrow> scheduler \<Rightarrow> scheduler" where
  "cancel job s = s\<lparr>liveJobs := filter (\<lambda>jl. fst jl \<noteq> job) (liveJobs s)\<rparr>"

definition startFrequentPoll :: "string \<Rightarrow> scheduler \<Rightarrow> scheduler" where
  "startFrequentPoll leagueName s =
     (let s1 = (case scheduledLeagueJobs s leagueName of
                  Some existing \<Rightarrow>
                    (cancel existing s)
                      \<lparr>scheduledLeagueJobs := (scheduledLeagueJobs s)(leagueName := None)\<rparr>
                | None \<Rightarrow> s);
          job = nextJobId s1
      in s1\<lparr>liveJobs := liveJobs s1 @ [(job, leagueName)],
            nextJobId := Suc job,
            scheduledLeagueJobs := (scheduledLeagueJobs s1)(leagueName \<mapsto> job)\<rparr>)"

text \<open>
  \<open>leagueMap\<close>, an object keyed by league name, as the list of its entries in insertion
  order (league names are not array indices, so \<open>Object.keys\<close> keeps that order).
\<close>

record league_schedule =
  earliestStart :: int
  hasInProgress :: bool

definition leagueMapStep :: "(string \<times> league_schedule) list \<Rightarrow> game \<Rightarrow> (string \<times> league_schedule) list" where
  "leagueMapStep leagueMap row =
     (let m1 = (case map_of leagueMap (league row) of
                  None \<Rightarrow>
                    AList.update (league row)
                      \<lparr>earliestStart = start_time row, hasInProgress = False\<rparr> leagueMap
                | Some info \<Rightarrow>
                    if start_time row < earliestStart info
                    then AList.update (league row) (info\<lparr>earliestStart := start_time row\<rparr>) leagueMap
                    else leagueMap)
      in if state row = ''in''
         then (case map_of m1 (league row) of
                 None \<Rightarrow> m1
               | Some info \<Rightarrow> AList.update (league row) (info\<lparr>hasInProgress := True\<rparr>) m1)
         else m1)"

definition buildLeagueMap :: "game list \<Rightarrow> (string \<times> league_schedule) list" where
  "buildLeagueMap rows = foldl leagueMapStep [] rows"

text \<open>
  The body of the loop over the leagues. \<open>now\<close> is the clock reading \<open>new Date()\<close> taken
  in that iteration.
\<close>

definition scheduleLeague :: "(string \<Rightarrow> int) \<Rightarrow> scheduler \<Rightarrow> string \<times> league_schedule \<Rightarrow> scheduler" where
  "scheduleLeague nowAt s entry =
     (let leagueName = fst entry;
          pollStartTime = earliestStart (snd entry) - 15 * 60000;
          now = nowAt leagueName
      in if pollStartTime < now \<or> hasInProgress (snd entry)
         then startFrequentPoll leagueName s
         else s\<lparr>timers := timers s @ [(pollStartTime, leagueName)]\<rparr>)"

definition runDailySchedule :: "time_info \<Rightarrow> (string \<Rightarrow> int) \<Rightarrow> games_table \<Rightarrow> scheduler \<Rightarrow> scheduler" where
  "runDailySchedule ti nowAt tbl s =
     (let rows = getNotFinalGamesToday ti tbl
      in if rows = [] then s
         else foldl (scheduleLeague nowAt) s (buildLeagueMap rows))"

text \<open>The recurring jobs and the pending one-shot jobs of one league.\<close>

definition liveFor :: "string \<Rightarrow> scheduler \<Rightarrow> (nat \<times> string) list" where
  "liveFor leagueName s = filter (\<lambda>jl. snd jl = leagueName) (liveJobs s)"

definition timersFor :: "string \<Rightarrow> scheduler \<Rightarrow> (int \<times> string) list" where
  "timersFor leagueName s = filter (\<lambda>tl. snd tl = leagueName) (timers s)"

section \<open>The running system\<close>

record system =
  games :: games_table
  api :: api_state
  sched :: scheduler

text \<open>
  What a firing reads from outside: the configured leagues, the upstream's answers, the
  database's day and its calendar-date function.
\<close>

record env =
  leagueConfigs :: "league_config list"
  axiosGet :: fetcher
  timeInfo :: time_info
  dateOf :: "int \<Rightarrow> int"

definition getSlugForLeague :: "league_config list \<Rightarrow> string \<Rightarrow> string option" where
  "getSlugForLeague cfgs leagueName =
     (case find (\<lambda>cfg. name cfg = leagueName) cfgs of
        Some found \<Rightarrow> slug found
      | None \<Rightarrow> None)"

text \<open>
  One firing of the recurring job \<open>job\<close> of \<open>startFrequentPoll(league)\<close>, run from start to
  end on the state it finds: the ingest of that league, the broadcast, then the
  \<open>areAllGamesFinal\<close> check on the table just written. An exception on the way is caught
  and logged and leaves the job as it is.
\<close>

definition pollFiring :: "env \<Rightarrow> nat \<Rightarrow> string \<Rightarrow> system \<Rightarrow> system" where
  "pollFiring e job leagueName sys =
     (case ingestData (axiosGet e)
             [\<lparr>name = leagueName, slug = getSlugForLeague (leagueConfigs e) leagueName\<rparr>]
             (games sys) of
        Inl err \<Rightarrow> sys
      | Inr r \<Rightarrow>
          let sys1 = sys\<lparr>games := table r\<rparr>;
              sys2 = sys1\<lparr>api := broadcastUpdatedGames (Some leagueName) (games sys1) (api sys1)\<rparr>;
              done = areAllGamesFinal (dateOf e) (timeInfo e) (games sys2) leagueName
          in if done
             then sys2\<lparr>sched := (cancel job (sched sys2))
                          \<lparr>scheduledLeagueJobs := (scheduledLeagueJobs (sched sys2))(leagueName := None)\<rparr>\<rparr>
             else sys2)"

text \<open>The value \<open>areAllGamesFinal\<close> returns in that firing, if the firing gets that far.\<close>

definition firingCheck :: "env \<Rightarrow> string \<Rightarrow> system \<Rightarrow> bool option" where
  "firingCheck e leagueName sys =
     (case ingestData (axiosGet e)
             [\<lparr>name = leagueName, slug = getSlugForLeague (leagueConfigs e) leagueName\<rparr>]
             (games sys) of
        Inl err \<Rightarrow> None
      | Inr r \<Rightarrow> Some (areAllGamesFinal (dateOf e) (timeInfo e) (table r) leagueName))"

text \<open>
  Successive firings of one job, one environment per minute: a cancelled job fires no more.
\<close>

fun pollFirings :: "env list \<Rightarrow> nat \<Rightarrow> string \<Rightarrow> system \<Rightarrow> system" where
  "pollFirings [] job leagueName sys = sys"
| "pollFirings (e # es) job leagueName sys =
     (if (job, leagueName) \<in> set (liveJobs (sched sys))
      then pollFirings es job leagueName (pollFiring e job leagueName sys)
      else sys)"

text \<open>
  The operations that act on the system: a run of \<open>runDailySchedule\<close>, a pending
  one-shot job reaching its date, a call of \<open>startFrequentPoll\<close>, a firing of the
  recurring job \<open>job\<close> for its league coming to its end, an ingest of a batch and a
  broadcast (server.js). Cancelling a job stops its future firings only: a
  firing that has begun still comes to its end, so \<open>PollFires\<close> acts whether or not
  the job is still live.
\<close>

datatype event =
    DailySchedule time_info "string \<Rightarrow> int"
  | TimerFires nat
  | StartPoll string
  | PollFires env nat string
  | Ingest fetcher "league_config list"
  | Broadcast "string option"

fun step :: "system \<Rightarrow> event \<Rightarrow> system" where
  "step sys (DailySchedule ti nowAt) =
     sys\<lparr>sched := runDailySchedule ti nowAt (games sys) (sched sys)\<rparr>"
| "step sys (TimerFires i) =
     (if i < length (timers (sched sys))
      then sys\<lparr>sched := startFrequentPoll (snd (timers (sched sys) ! i))
                          ((sched sys)\<lparr>timers := take i (timers (sched sys))
                                                  @ drop (Suc i) (timers (sched sys))\<rparr>)\<rparr>
      else sys)"
| "step sys (StartPoll leagueName) = sys\<lparr>sched := startFrequentPoll leagueName (sched sys)\<rparr>"
| "step sys (PollFires e job leagueName) = pollFiring e job leagueName sys"
| "step sys (Ingest f leaguesToIngest) =
     (case ingestData f leaguesToIngest (games sys) of
        Inl err \<Rightarrow> sys
      | Inr r \<Rightarrow> sys\<lparr>games := table r\<rparr>)"
| "step sys (Broadcast optionalLeague) =
     sys\<lparr>api := broadcastUpdatedGames optionalLeague (games sys) (api sys)\<rparr>"

definition run :: "event list \<Rightarrow> system \<Rightarrow> system" where
  "run evs sys = foldl step sys evs"

text \<open>
  A sequence of operations in which every firing that comes to its end belongs to a job
  that is live at that moment: no firing outlasts the cancellation of its job.
\<close>

fun timely :: "system \<Rightarrow> event list \<Rightarrow> bool" where
  "timely sys [] = True"
| "timely sys (ev # evs) =
     ((case ev of
         PollFires e job leagueName \<Rightarrow> (job, leagueName) \<in> set (liveJobs (sched sys))
       | _ \<Rightarrow> True)
      \<and> timely (step sys ev) evs)"

text \<open>A sequence of operations without any firing.\<close>

fun isFiring :: "event \<Rightarrow> bool" where
  "isFiring (PollFires e job leagueName) = True"
| "isFiring ev = False"

definition startup :: "games_table \<Rightarrow> api_state \<Rightarrow> system" where
  "startup tbl a = \<lparr>games = tbl, api = a, sched = noJobs\<rparr>"

text \<open>
  The registry and node-schedule agree: no two live jobs share a number, every live job is
  the registered one of its league and was numbered before \<open>nextJobId\<close>, and every
  registered job is live.
\<close>

definition schedInv :: "scheduler \<Rightarrow> bool" where
  "schedInv s =
     (distinct (map fst (liveJobs s)) \<and>
      (\<forall>j l. (j, l) \<in> set (liveJobs s) \<longrightarrow> scheduledLeagueJobs s l = Some j \<and> j < nextJobId s) \<and>
      (\<forall>l j. scheduledLeagueJobs s l = Some j \<longrightarrow> (j, l) \<in> set (liveJobs s)))"

text \<open>
  Test data: a clock that reads the same instant in every iteration, a day starting at
  instant 0 with the calendar date taken in UTC, an upstream that answers every request
  with the given events, and a system in which the NFL poll has just been started.
\<close>

definition utcDay :: "int \<Rightarrow> int" where
  "utcDay t = t div 86400000"

definition clockAt :: "int \<Rightarrow> string \<Rightarrow> int" where
  "clockAt t leagueName = t"

definition today :: time_info where
  "today = \<lparr>currentDay = 0, nextDay = 86400000\<rparr>"

definition envWith :: "espn_event list \<Rightarrow> env" where
  "envWith evs =
     \<lparr>leagueConfigs = [cfgNFL, cfgNBA], axiosGet = (\<lambda>s. Inr (Some evs)),
      timeInfo = today, dateOf = utcDay\<rparr>"

definition pollingNFL :: system where
  "pollingNFL = \<lparr>games = [], api = twoClients, sched = startFrequentPoll ''NFL'' noJobs\<rparr>"

section \<open>Properties of the filter evaluation\<close>

subsection \<open>Sorting and counting lemmas\<close>









lemma count_list_filter:
  "count_list (filter P xs) g = (if P g then count_list xs g else 0)"
  by (induction xs) auto

lemma count_list_sort_key: "count_list (sort_key f xs) g = count_list xs g"
  by (metis count_mset mset_sort)

lemma count_getGamesByLeague:
  "count_list (getGamesByLeague tbl l) g = (if league g = l then count_list tbl g else 0)"
  by (simp add: getGamesByLeague_def count_list_sort_key count_list_filter)

lemma count_concat_leagues:
  "count_list (concat (map (getGamesByLeague tbl) ls)) g
     = count_list ls (league g) * count_list tbl g"
  by (induction ls) (auto simp: count_getGamesByLeague)

lemma count_leagueFilters:
  "L \<in> set knownLeagues \<Longrightarrow> count_list (leagueFilters fs) L = count_list fs L"
  unfolding leagueFilters_def by (induction fs) auto

lemma leagueFilters_dropIgnored: "leagueFilters (dropIgnored fs) = leagueFilters fs"
  unfolding leagueFilters_def dropIgnored_def codeToken_def
  by (induction fs) auto

lemma stateFilters_dropIgnored: "stateFilters (dropIgnored fs) = stateFilters fs"
  unfolding stateFilters_def dropIgnored_def codeToken_def
  by (induction fs) auto

lemma dropIgnored_Nil_iff:
  "dropIgnored fs = [] \<longleftrightarrow> leagueFilters fs = [] \<and> stateFilters fs = []"
  unfolding stateFilters_def leagueFilters_def dropIgnored_def codeToken_def
  by (induction fs) auto

subsection \<open>Result ordering\<close>


subsection \<open>Tokens without effect\<close>

text \<open>
  C7, as claimed, fails: \<open>state_xyz\<close> is neither a league token nor one of the three state
  tokens, yet it is taken as a state filter for the state \<open>xyz\<close> and empties the result,
  whereas the selection without it is empty and returns every game.
\<close>

theorem unrecognized_state_token_restricts:
  "unrecognized ''state_xyz'' \<and>
   getFilteredGames [mkGame ''NFL'' ''1'' 1 ''in''] (Some [''state_xyz'']) = [] \<and>
   getFilteredGames [mkGame ''NFL'' ''1'' 1 ''in''] (Some (removeUnrecognized [''state_xyz'']))
     = [mkGame ''NFL'' ''1'' 1 ''in'']"
  by code_simp

text \<open>
  C7, amended: a token that is neither one of the seven league tokens nor begins with
  \<open>state_\<close> is ignored: evaluating a selection equals evaluating it with all such tokens
  removed.
\<close>

theorem getFilteredGames_dropIgnored:
  "getFilteredGames tbl (Some filters) = getFilteredGames tbl (Some (dropIgnored filters))"
proof (cases "dropIgnored filters = []")
  case True
  then have "leagueFilters filters = []" "stateFilters filters = []"
    by (simp_all add: dropIgnored_Nil_iff)
  with True show ?thesis by (simp add: getFilteredGames_def)
next
  case False
  then have "filters \<noteq> []" by (auto simp: dropIgnored_def)
  with False show ?thesis
    by (simp add: getFilteredGames_def leagueFilters_dropIgnored stateFilters_dropIgnored)
qed

subsection \<open>Idempotence\<close>




subsection \<open>Repeated league tokens\<close>

text \<open>
  C10. When the selection contains a league token, a game of that league that passes the
  state filter occurs in the result once per occurrence of the token in the selection, for
  each time it is stored: the per-league query results are concatenated per token, so the
  result can hold the same record several times.
\<close>

theorem getFilteredGames_count_per_token:
  assumes "league g \<in> set knownLeagues" and "league g \<in> set filters"
    and "stateFilters filters = [] \<or> state g \<in> set (stateFilters filters)"
  shows "count_list (getFilteredGames tbl (Some filters)) g
           = count_list filters (league g) * count_list tbl g"
proof -
  from assms(1,2) have ne: "leagueFilters filters \<noteq> []" "filters \<noteq> []"
    by (auto simp: leagueFilters_def filter_empty_conv)
  show ?thesis
    using assms(1,3) ne
    by (auto simp: getFilteredGames_def Let_def count_list_filter count_concat_leagues
        count_leagueFilters)
qed

theorem getFilteredGames_count_per_token_witness:
  "league (mkGame ''NFL'' ''1'' 1 ''in'') \<in> set knownLeagues \<and>
   league (mkGame ''NFL'' ''1'' 1 ''in'') \<in> set [''NFL'', ''NBA'', ''NFL''] \<and>
   stateFilters [''NFL'', ''NBA'', ''NFL''] = [] \<and>
   count_list (getFilteredGames [mkGame ''NFL'' ''1'' 1 ''in''] (Some [''NFL'', ''NBA'', ''NFL'']))
     (mkGame ''NFL'' ''1'' 1 ''in'') = 2"
proof -
  have a: "league (mkGame ''NFL'' ''1'' 1 ''in'') \<in> set knownLeagues"
    by (simp add: mkGame_def knownLeagues_def)
  have b: "league (mkGame ''NFL'' ''1'' 1 ''in'') \<in> set [''NFL'', ''NBA'', ''NFL'']"
    by (simp add: mkGame_def)
  have c: "stateFilters [''NFL'', ''NBA'', ''NFL''] = []"
    by (simp add: stateFilters_def startsWith_def)
  have d: "count_list [''NFL'', ''NBA'', ''NFL''] (league (mkGame ''NFL'' ''1'' 1 ''in'')) = 2"
    by (simp add: mkGame_def)
  from getFilteredGames_count_per_token [OF a b disjI1 [OF c], of "[mkGame ''NFL'' ''1'' 1 ''in'']"]
  have "count_list (getFilteredGames [mkGame ''NFL'' ''1'' 1 ''in''] (Some [''NFL'', ''NBA'', ''NFL'']))
     (mkGame ''NFL'' ''1'' 1 ''in'') = 2"
    unfolding d by simp
  with a b c show ?thesis by simp
qed

section \<open>Properties of the ingest\<close>

lemma cleanedData_league:
  "cleanedData n evs = Inr gs \<Longrightarrow> g \<in> set gs \<Longrightarrow> league g = n"
proof (induction evs arbitrary: gs)
  case Nil
  then show ?case by simp
next
  case (Cons ev evs)
  then show ?case
    by (auto simp: cleanGame_def split: sum.splits option.splits)
qed

lemma leagueGames_league:
  "leagueGames fetch c = Inr gs \<Longrightarrow> g \<in> set gs \<Longrightarrow> league g = name c"
  by (auto simp: leagueGames_def split: sum.splits dest: cleanedData_league)

lemma upsertGame_outside:
  "league g \<in> B \<Longrightarrow>
   filter (\<lambda>r. league r \<notin> B) (upsertGame g tbl) = filter (\<lambda>r. league r \<notin> B) tbl"
  by (induction tbl) auto

lemma upsertGame_leagues:
  "set (map league (upsertGame g tbl)) \<subseteq> insert (league g) (set (map league tbl))"
  by (induction tbl) auto

lemma foldl_upsert_outside:
  "\<forall>g\<in>set gs. league g \<in> B \<Longrightarrow>
   filter (\<lambda>r. league r \<notin> B) (foldl (\<lambda>t g. upsertGame g t) tbl gs)
     = filter (\<lambda>r. league r \<notin> B) tbl"
  by (induction gs arbitrary: tbl) (simp_all add: upsertGame_outside)

lemma foldl_upsert_leagues:
  "\<forall>g\<in>set gs. league g = n \<Longrightarrow>
   set (map league (foldl (\<lambda>t g. upsertGame g t) tbl gs)) \<subseteq> insert n (set (map league tbl))"
proof (induction gs arbitrary: tbl)
  case Nil
  then show ?case by auto
next
  case (Cons g gs)
  from Cons.prems have "league g = n" and rest: "\<forall>g\<in>set gs. league g = n" by simp_all
  from Cons.IH [OF rest, of "upsertGame g tbl"] upsertGame_leagues [of g tbl] \<open>league g = n\<close>
  show ?case by auto
qed

lemma no_league_rows:
  "n \<notin> set (map league xs) \<Longrightarrow> filter (\<lambda>g. league g = n) xs = []"
  by (induction xs) auto


lemma ingestLoop_upserted:
  assumes "\<forall>p\<in>set pre. \<not> isl (leagueGames fetch p)" and "leagueGames fetch c = Inl e"
  shows "upsertedLeagues (ingestLoop fetch (pre @ c # post) r) = upsertedLeagues r @ map name pre"
  using assms(1)
proof (induction pre arbitrary: r)
  case Nil
  then show ?case using assms(2) by (simp add: Let_def)
next
  case (Cons p pre)
  then obtain gs where "leagueGames fetch p = Inr gs" by (cases "leagueGames fetch p") auto
  with Cons show ?case by (simp add: Let_def)
qed

lemma ingestLoop_logged:
  assumes "\<forall>p\<in>set pre. \<not> isl (leagueGames fetch p)" and "leagueGames fetch c = Inl e"
  shows "logged (ingestLoop fetch (pre @ c # post) r) = logged r @ [e]"
  using assms(1)
proof (induction pre arbitrary: r)
  case Nil
  then show ?case using assms(2) by (simp add: Let_def)
next
  case (Cons p pre)
  then obtain gs where "leagueGames fetch p = Inr gs" by (cases "leagueGames fetch p") auto
  with Cons show ?case by (simp add: Let_def)
qed

lemma ingestLoop_outside:
  "set (map name cs) \<subseteq> B \<Longrightarrow>
   filter (\<lambda>g. league g \<notin> B) (table (ingestLoop fetch cs r))
     = filter (\<lambda>g. league g \<notin> B) (table r)"
proof (induction cs arbitrary: r)
  case Nil
  then show ?case by simp
next
  case (Cons c cs)
  show ?case
  proof (cases "leagueGames fetch c")
    case (Inl e)
    then show ?thesis by (simp add: Let_def)
  next
    case (Inr gs)
    from Cons.prems have "name c \<in> B" and sub: "set (map name cs) \<subseteq> B" by simp_all
    with leagueGames_league [OF Inr] have "\<forall>g\<in>set gs. league g \<in> B" by simp
    from foldl_upsert_outside [OF this] Cons.IH [OF sub] Inr show ?thesis
      by (simp add: Let_def)
  qed
qed

lemma ingestLoop_upserted_mono:
  "set (upsertedLeagues r) \<subseteq> set (upsertedLeagues (ingestLoop fetch cs r))"
proof (induction cs arbitrary: r)
  case Nil
  then show ?case by simp
next
  case (Cons c cs)
  show ?case
  proof (cases "leagueGames fetch c")
    case (Inl e)
    then show ?thesis by (simp add: Let_def)
  next
    case (Inr gs)
    let ?next = "r\<lparr>fetched := fetched r @ [name c],
                 table := foldl (\<lambda>t g. upsertGame g t) (table r) gs,
                 upsertedLeagues := upsertedLeagues r @ [name c]\<rparr>"
    from Cons.IH [of ?next] Inr show ?thesis by (auto simp: Let_def)
  qed
qed

lemma ingestLoop_leagues:
  "set (map league (table (ingestLoop fetch cs r)))
     \<subseteq> set (map league (table r)) \<union> set (upsertedLeagues (ingestLoop fetch cs r))"
proof (induction cs arbitrary: r)
  case Nil
  then show ?case by simp
next
  case (Cons c cs)
  show ?case
  proof (cases "leagueGames fetch c")
    case (Inl e)
    then show ?thesis by (simp add: Let_def)
  next
    case (Inr gs)
    let ?next = "r\<lparr>fetched := fetched r @ [name c],
                 table := foldl (\<lambda>t g. upsertGame g t) (table r) gs,
                 upsertedLeagues := upsertedLeagues r @ [name c]\<rparr>"
    have eq: "ingestLoop fetch (c # cs) r = ingestLoop fetch cs ?next"
      using Inr by (simp add: Let_def)
    from leagueGames_league [OF Inr] have "\<forall>g\<in>set gs. league g = name c" by simp
    from foldl_upsert_leagues [OF this, of "table r"]
    have t2: "set (map league (table ?next)) \<subseteq> insert (name c) (set (map league (table r)))"
      by simp
    have "name c \<in> set (upsertedLeagues ?next)" by simp
    with ingestLoop_upserted_mono [of ?next fetch cs]
    have "name c \<in> set (upsertedLeagues (ingestLoop fetch cs ?next))" by blast
    with Cons.IH [of ?next] t2 show ?thesis unfolding eq by blast
  qed
qed

subsection \<open>A failing league within a batch\<close>




subsection \<open>Stored records after a failed fetch\<close>

text \<open>
  C6, as claimed, fails: the league's rows are deleted by \<open>clearTable\<close> before the request
  is made, so after a failed request the previously stored NFL game is gone.
\<close>

theorem ingestData_failed_fetch_loses_rows:
  "ingestData fetchNflDown [cfgNFL] [mkGame ''NFL'' ''1'' 1 ''in'', mkGame ''MLB'' ''3'' 1 ''in'']
     = Inr \<lparr>table = [mkGame ''MLB'' ''3'' 1 ''in''], fetched = [''NFL''],
             upsertedLeagues = [], logged = [FetchError]\<rparr>"
  by code_simp

text \<open>
  C6, amended: when the upstream fetch for a league fails during an ingest cycle (the
  leagues before it in the batch having succeeded, none of them under the same name), the
  error is logged, the league is not upserted in that cycle, and the table afterwards holds
  no record of that league: its previously stored records were deleted by the bulk
  league-clear at the start of the cycle. The records of leagues outside the batch are
  unchanged.
\<close>

theorem ingestData_failed_fetch:
  assumes "\<forall>p\<in>set pre. \<not> isl (leagueGames fetch p)" and "fetch (slug c) = Inl e"
    and "name c \<notin> set (map name pre)"
  shows "\<exists>r. ingestData fetch (pre @ c # post) tbl = Inr r \<and>
             logged r = [e] \<and>
             name c \<notin> set (upsertedLeagues r) \<and>
             filter (\<lambda>g. league g = name c) (table r) = [] \<and>
             filter (\<lambda>g. league g \<notin> set (map name (pre @ c # post))) (table r)
               = filter (\<lambda>g. league g \<notin> set (map name (pre @ c # post))) tbl"
proof -
  let ?cs = "pre @ c # post"
  let ?B = "set (map name ?cs)"
  let ?init = "\<lparr>table = filter (\<lambda>g. league g \<notin> ?B) tbl, fetched = [],
              upsertedLeagues = [], logged = []\<rparr>"
  let ?r = "ingestLoop fetch ?cs ?init"
  from assms(2) have fail: "leagueGames fetch c = Inl e" by (simp add: leagueGames_def)
  have res: "ingestData fetch ?cs tbl = Inr ?r"
    by (simp add: ingestData_def clearTable_def)
  have lg: "logged ?r = [e]" using ingestLoop_logged [OF assms(1) fail, of post ?init] by simp
  have up: "upsertedLeagues ?r = map name pre"
    using ingestLoop_upserted [OF assms(1) fail, of post ?init] by simp
  with assms(3) have notup: "name c \<notin> set (upsertedLeagues ?r)" by simp
  have "name c \<notin> set (map league (table ?init))" by auto
  with ingestLoop_leagues [of fetch ?cs ?init] notup
  have "name c \<notin> set (map league (table ?r))" by blast
  then have gone: "filter (\<lambda>g. league g = name c) (table ?r) = []"
    by (rule no_league_rows)
  have out: "filter (\<lambda>g. league g \<notin> ?B) (table ?r) = filter (\<lambda>g. league g \<notin> ?B) tbl"
    using ingestLoop_outside [of ?cs ?B fetch ?init] by simp
  from res lg notup gone out show ?thesis by blast
qed

theorem ingestData_failed_fetch_witness:
  "\<not> isl (leagueGames fetchNflDown cfgNBA) \<and>
   fetchNflDown (slug cfgNFL) = Inl FetchError \<and>
   name cfgNFL \<notin> set (map name [cfgNBA]) \<and>
   (\<exists>r. ingestData fetchNflDown [cfgNBA, cfgNFL]
           [mkGame ''NFL'' ''1'' 1 ''in'', mkGame ''MLB'' ''3'' 1 ''in''] = Inr r \<and>
        logged r = [FetchError] \<and>
        filter (\<lambda>g. league g = ''NFL'') (table r) = [] \<and>
        filter (\<lambda>g. league g \<notin> set [''NBA'', ''NFL'']) (table r) = [mkGame ''MLB'' ''3'' 1 ''in''])"
proof -
  have ok: "\<not> isl (leagueGames fetchNflDown cfgNBA)" by code_simp
  then have pre: "\<forall>p\<in>set [cfgNBA]. \<not> isl (leagueGames fetchNflDown p)" by simp
  have fail: "fetchNflDown (slug cfgNFL) = Inl FetchError" by code_simp
  have fresh: "name cfgNFL \<notin> set (map name [cfgNBA])"
    by (simp add: cfgNBA_def cfgNFL_def)
  have names: "name cfgNBA = ''NBA''" "name cfgNFL = ''NFL''"
    by (simp_all add: cfgNBA_def cfgNFL_def)
  have kept: "filter (\<lambda>g. league g \<notin> set [''NBA'', ''NFL''])
                [mkGame ''NFL'' ''1'' 1 ''in'', mkGame ''MLB'' ''3'' 1 ''in'']
              = [mkGame ''MLB'' ''3'' 1 ''in'']"
    by (simp add: mkGame_def)
  from ingestData_failed_fetch
         [OF pre fail fresh, of "[]" "[mkGame ''NFL'' ''1'' 1 ''in'', mkGame ''MLB'' ''3'' 1 ''in'']"]
  obtain r where r: "ingestData fetchNflDown ([cfgNBA] @ [cfgNFL])
           [mkGame ''NFL'' ''1'' 1 ''in'', mkGame ''MLB'' ''3'' 1 ''in''] = Inr r"
      "logged r = [FetchError]"
      "filter (\<lambda>g. league g = name cfgNFL) (table r) = []"
      "filter (\<lambda>g. league g \<notin> set (map name ([cfgNBA] @ [cfgNFL]))) (table r)
         = filter (\<lambda>g. league g \<notin> set (map name ([cfgNBA] @ [cfgNFL])))
             [mkGame ''NFL'' ''1'' 1 ''in'', mkGame ''MLB'' ''3'' 1 ''in'']"
    by blast
  from r(1) have r1: "ingestData fetchNflDown [cfgNBA, cfgNFL]
           [mkGame ''NFL'' ''1'' 1 ''in'', mkGame ''MLB'' ''3'' 1 ''in''] = Inr r"
    by simp
  from r(3) have r3: "filter (\<lambda>g. league g = ''NFL'') (table r) = []"
    by (simp only: names)
  from r(4) have r4: "filter (\<lambda>g. league g \<notin> set [''NBA'', ''NFL'']) (table r)
         = [mkGame ''MLB'' ''3'' 1 ''in'']"
    by (simp only: names list.map append.simps kept)
  from r1 r(2) r3 r4 ok fail fresh show ?thesis by blast
qed

section \<open>Properties of the connection registry\<close>

text \<open>
  C9. Handling a \<open>filter_request\<close> from one connection stores the requested selection for
  that connection, whatever was stored before, and makes exactly one call of \<open>send\<close>, on
  that connection, with the snapshot filtered by the new selection; the stored selection of
  every other connection and the set of clients are unchanged.
\<close>

theorem filter_request_point_update:
  "clientFilters (onMessage ws (FilterRequest fs) tbl st) ws = Some fs \<and>
   (\<forall>c. c \<noteq> ws \<longrightarrow>
        clientFilters (onMessage ws (FilterRequest fs) tbl st) c = clientFilters st c) \<and>
   sent (onMessage ws (FilterRequest fs) tbl st)
     = sent st @ [(ws, FilteredData (getFilteredGames tbl fs) fs
                         (length (getFilteredGames tbl fs)) False)] \<and>
   clients (onMessage ws (FilterRequest fs) tbl st) = clients st"
  by (simp add: send_def Let_def)

theorem filter_request_point_update_witness:
  "clientFilters
     (onMessage 1 (FilterRequest (Some [''NFL''])) [mkGame ''NFL'' ''1'' 1 ''in''] twoClients) 1
     = Some (Some [''NFL'']) \<and>
   clientFilters
     (onMessage 1 (FilterRequest (Some [''NFL''])) [mkGame ''NFL'' ''1'' 1 ''in''] twoClients) 2
     = Some (Some [''MLB'']) \<and>
   sent (onMessage 1 (FilterRequest (Some [''NFL''])) [mkGame ''NFL'' ''1'' 1 ''in''] twoClients)
     = [(1, FilteredData [mkGame ''NFL'' ''1'' 1 ''in''] (Some [''NFL'']) 1 False)]"
proof -
  have ne: "(2::nat) \<noteq> 1" by simp
  have old: "clientFilters twoClients 2 = Some (Some [''MLB''])" "sent twoClients = []"
    by (simp_all add: twoClients_def)
  have res: "getFilteredGames [mkGame ''NFL'' ''1'' 1 ''in''] (Some [''NFL''])
               = [mkGame ''NFL'' ''1'' 1 ''in'']"
    by code_simp
  from filter_request_point_update
         [of 1 "Some [''NFL'']" "[mkGame ''NFL'' ''1'' 1 ''in'']" twoClients] ne old res
  show ?thesis by simp
qed

section \<open>Properties of the poll scheduler\<close>

subsection \<open>One live task per league\<close>

lemma schedInv_distinct: "schedInv s \<Longrightarrow> distinct (map fst (liveJobs s))"
  unfolding schedInv_def by blast

lemma schedInv_live:
  "schedInv s \<Longrightarrow> (j, l) \<in> set (liveJobs s) \<Longrightarrow> scheduledLeagueJobs s l = Some j \<and> j < nextJobId s"
  unfolding schedInv_def by blast

lemma schedInv_registered:
  "schedInv s \<Longrightarrow> scheduledLeagueJobs s l = Some j \<Longrightarrow> (j, l) \<in> set (liveJobs s)"
  unfolding schedInv_def by blast

lemma schedInv_timers [simp]: "schedInv (s\<lparr>timers := t\<rparr>) = schedInv s"
  unfolding schedInv_def by simp

lemma schedInv_noJobs: "schedInv noJobs"
  by (simp add: schedInv_def noJobs_def)

lemma schedInvI:
  assumes "distinct (map fst (liveJobs s))"
    and "\<And>j l. (j, l) \<in> set (liveJobs s) \<Longrightarrow> scheduledLeagueJobs s l = Some j \<and> j < nextJobId s"
    and "\<And>l j. scheduledLeagueJobs s l = Some j \<Longrightarrow> (j, l) \<in> set (liveJobs s)"
  shows "schedInv s"
  unfolding schedInv_def using assms by blast

lemma distinct_fst_unique:
  "distinct (map fst xs) \<Longrightarrow> (j, l) \<in> set xs \<Longrightarrow> (j, l') \<in> set xs \<Longrightarrow> l = l'"
  by (induction xs) (auto simp: image_iff)

lemma schedInv_remove:
  assumes "schedInv s" and "scheduledLeagueJobs s l = Some job"
  shows "schedInv ((cancel job s)\<lparr>scheduledLeagueJobs := (scheduledLeagueJobs s)(l := None)\<rparr>)"
proof (rule schedInvI)
  note d = schedInv_distinct [OF assms(1)]
  from schedInv_registered [OF assms] have live: "(job, l) \<in> set (liveJobs s)" .
  show "distinct (map fst (liveJobs ((cancel job s)\<lparr>scheduledLeagueJobs := (scheduledLeagueJobs s)(l := None)\<rparr>)))"
    using d by (simp add: cancel_def distinct_map_filter)
  show "scheduledLeagueJobs ((cancel job s)\<lparr>scheduledLeagueJobs := (scheduledLeagueJobs s)(l := None)\<rparr>) l' = Some j
          \<and> j < nextJobId ((cancel job s)\<lparr>scheduledLeagueJobs := (scheduledLeagueJobs s)(l := None)\<rparr>)"
    if "(j, l') \<in> set (liveJobs ((cancel job s)\<lparr>scheduledLeagueJobs := (scheduledLeagueJobs s)(l := None)\<rparr>))"
    for j l'
  proof -
    from that have in_live: "(j, l') \<in> set (liveJobs s)" and ne: "j \<noteq> job"
      by (simp_all add: cancel_def)
    from schedInv_live [OF assms(1) in_live]
    have r: "scheduledLeagueJobs s l' = Some j" and lt: "j < nextJobId s" by simp_all
    from r assms(2) ne have "l' \<noteq> l" by auto
    with r lt show ?thesis by (simp add: cancel_def)
  qed
  show "(j, l') \<in> set (liveJobs ((cancel job s)\<lparr>scheduledLeagueJobs := (scheduledLeagueJobs s)(l := None)\<rparr>))"
    if "scheduledLeagueJobs ((cancel job s)\<lparr>scheduledLeagueJobs := (scheduledLeagueJobs s)(l := None)\<rparr>) l' = Some j"
    for j l'
  proof -
    from that have ne: "l' \<noteq> l" and r: "scheduledLeagueJobs s l' = Some j"
      by (simp_all split: if_splits)
    from schedInv_registered [OF assms(1) r] have in_live: "(j, l') \<in> set (liveJobs s)" .
    have "j \<noteq> job"
    proof
      assume "j = job"
      with in_live have "(job, l') \<in> set (liveJobs s)" by simp
      from distinct_fst_unique [OF d this live] have "l' = l" .
      with ne show False by simp
    qed
    with in_live show ?thesis by (simp add: cancel_def)
  qed
qed

lemma schedInv_add:
  assumes "schedInv s" and "scheduledLeagueJobs s l = None"
  shows "schedInv (s\<lparr>liveJobs := liveJobs s @ [(nextJobId s, l)],
                     nextJobId := Suc (nextJobId s),
                     scheduledLeagueJobs := (scheduledLeagueJobs s)(l \<mapsto> nextJobId s)\<rparr>)"
proof (rule schedInvI)
  note d = schedInv_distinct [OF assms(1)]
  have fresh: "nextJobId s \<notin> fst ` set (liveJobs s)"
  proof
    assume "nextJobId s \<in> fst ` set (liveJobs s)"
    then obtain l' where "(nextJobId s, l') \<in> set (liveJobs s)" by auto
    from schedInv_live [OF assms(1) this] show False by simp
  qed
  have nol: "l' \<noteq> l" if "(j, l') \<in> set (liveJobs s)" for j l'
    using schedInv_live [OF assms(1) that] assms(2) by auto
  let ?s' = "s\<lparr>liveJobs := liveJobs s @ [(nextJobId s, l)],
                nextJobId := Suc (nextJobId s),
                scheduledLeagueJobs := (scheduledLeagueJobs s)(l \<mapsto> nextJobId s)\<rparr>"
  show "distinct (map fst (liveJobs ?s'))" using d fresh by simp
  show "scheduledLeagueJobs ?s' l' = Some j \<and> j < nextJobId ?s'"
    if "(j, l') \<in> set (liveJobs ?s')" for j l'
  proof (cases "(j, l') \<in> set (liveJobs s)")
    case True
    from schedInv_live [OF assms(1) True] nol [OF True] show ?thesis by simp
  next
    case False
    with that have "j = nextJobId s" "l' = l" by simp_all
    then show ?thesis by simp
  qed
  show "(j, l') \<in> set (liveJobs ?s')" if "scheduledLeagueJobs ?s' l' = Some j" for j l'
  proof (cases "l' = l")
    case True
    with that show ?thesis by simp
  next
    case False
    with that have "scheduledLeagueJobs s l' = Some j" by simp
    from schedInv_registered [OF assms(1) this] show ?thesis by simp
  qed
qed

lemma schedInv_startFrequentPoll:
  assumes "schedInv s"
  shows "schedInv (startFrequentPoll l s)"
proof (cases "scheduledLeagueJobs s l")
  case None
  with schedInv_add [OF assms None] show ?thesis
    by (simp add: startFrequentPoll_def Let_def)
next
  case (Some existing)
  let ?s1 = "(cancel existing s)\<lparr>scheduledLeagueJobs := (scheduledLeagueJobs s)(l := None)\<rparr>"
  have "schedInv ?s1" by (rule schedInv_remove [OF assms Some])
  from schedInv_add [OF this, of l] Some show ?thesis
    by (simp add: startFrequentPoll_def Let_def cancel_def)
qed

lemma schedInv_scheduleLeague: "schedInv s \<Longrightarrow> schedInv (scheduleLeague nowAt s entry)"
  by (simp add: scheduleLeague_def Let_def schedInv_startFrequentPoll)

lemma schedInv_foldl:
  "schedInv s \<Longrightarrow> schedInv (foldl (scheduleLeague nowAt) s m)"
  by (induction m arbitrary: s) (simp_all add: schedInv_scheduleLeague)

lemma schedInv_runDailySchedule:
  "schedInv s \<Longrightarrow> schedInv (runDailySchedule ti nowAt tbl s)"
  by (simp add: runDailySchedule_def Let_def schedInv_foldl)




lemma timely_without_firing:
  "list_all (\<lambda>ev. \<not> isFiring ev) evs \<Longrightarrow> timely sys evs"
proof (induction evs arbitrary: sys)
  case Nil
  then show ?case by simp
next
  case (Cons ev evs)
  then show ?case by (cases ev) simp_all
qed

lemma filter_snd_single:
  "distinct (map fst xs) \<Longrightarrow> (j, l) \<in> set xs \<Longrightarrow>
   \<forall>j'. (j', l) \<in> set xs \<longrightarrow> j' = j \<Longrightarrow>
   filter (\<lambda>jl. snd jl = l) xs = [(j, l)]"
proof (induction xs)
  case Nil
  then show ?case by simp
next
  case (Cons x xs)
  show ?case
  proof (cases "x = (j, l)")
    case True
    with Cons.prems(1) have "\<forall>l'. (j, l') \<notin> set xs" by (auto simp: image_iff)
    with Cons.prems(3) have "\<forall>y\<in>set xs. snd y \<noteq> l" by fastforce
    then have "filter (\<lambda>jl. snd jl = l) xs = []" by (simp add: filter_empty_conv)
    with True show ?thesis by simp
  next
    case False
    with Cons.prems(2) have in_xs: "(j, l) \<in> set xs" by simp
    from Cons.prems(3) have all: "\<forall>j'. (j', l) \<in> set xs \<longrightarrow> j' = j" by simp
    from Cons.prems(1) have "distinct (map fst xs)" by simp
    from Cons.IH [OF this in_xs all] have IH: "filter (\<lambda>jl. snd jl = l) xs = [(j, l)]" .
    have "snd x \<noteq> l"
    proof
      assume "snd x = l"
      then have "x = (fst x, l)" by (cases x) simp
      then have "(fst x, l) \<in> set (x # xs)" by simp
      with Cons.prems(3) have "fst x = j" by blast
      with \<open>x = (fst x, l)\<close> False show False by simp
    qed
    with IH show ?thesis by simp
  qed
qed

lemma schedInv_liveFor:
  assumes "schedInv s"
  shows "liveFor l s =
           (case scheduledLeagueJobs s l of None \<Rightarrow> [] | Some j \<Rightarrow> [(j, l)])"
proof (cases "scheduledLeagueJobs s l")
  case None
  have "snd jl \<noteq> l" if "jl \<in> set (liveJobs s)" for jl
  proof
    assume "snd jl = l"
    then obtain j where "jl = (j, l)" by (cases jl) auto
    with that have "(j, l) \<in> set (liveJobs s)" by simp
    from schedInv_live [OF assms this] None show False by simp
  qed
  then have "\<forall>jl\<in>set (liveJobs s). snd jl \<noteq> l" by blast
  with None show ?thesis by (simp add: liveFor_def filter_empty_conv)
next
  case (Some j)
  from schedInv_registered [OF assms Some] have live: "(j, l) \<in> set (liveJobs s)" .
  have only: "\<forall>j'. (j', l) \<in> set (liveJobs s) \<longrightarrow> j' = j"
  proof (intro allI impI)
    fix j'
    assume "(j', l) \<in> set (liveJobs s)"
    from schedInv_live [OF assms this] Some show "j' = j" by simp
  qed
  from filter_snd_single [OF schedInv_distinct [OF assms] live only] Some
  show ?thesis by (simp add: liveFor_def)
qed

lemma startFrequentPoll_registry:
  "scheduledLeagueJobs (startFrequentPoll l s) l = Some (nextJobId s)"
  by (simp add: startFrequentPoll_def Let_def cancel_def split: option.splits)



text \<open>
  What the hypothesis on the firings excludes: a firing of job 0 that ends, with all games
  final, after job 0 has been replaced by job 1 deletes the registry entry of job 1, and the
  next call of \<open>startFrequentPoll\<close> then installs job 2 beside the live job 1.
\<close>

lemma late_firing_leaves_two_live_tasks:
  "liveFor ''NFL'' (sched (run
     [StartPoll ''NFL'', StartPoll ''NFL'',
      PollFires (envWith [mkEvent ''7'' 3600000 ''post'']) 0 ''NFL'', StartPoll ''NFL'']
     (startup [] twoClients)))
   = [(1, ''NFL''), (2, ''NFL'')]"
  by code_simp

subsection \<open>Self-cancellation of a poll task\<close>

lemma pollFiring_not_done:
  assumes "firingCheck e l sys \<noteq> Some True"
  shows "sched (pollFiring e job l sys) = sched sys"
  using assms
  by (auto simp: pollFiring_def firingCheck_def Let_def split: sum.splits)

lemma pollFiring_done:
  assumes "firingCheck e l sys = Some True"
  shows "(job, l) \<notin> set (liveJobs (sched (pollFiring e job l sys))) \<and>
         scheduledLeagueJobs (sched (pollFiring e job l sys)) l = None"
  using assms
  by (auto simp: pollFiring_def firingCheck_def Let_def cancel_def split: sum.splits)

lemma pollFirings_snoc:
  "pollFirings (es @ [e]) job l sys =
     (if (job, l) \<in> set (liveJobs (sched (pollFirings es job l sys)))
      then pollFiring e job l (pollFirings es job l sys)
      else pollFirings es job l sys)"
  by (induction es arbitrary: sys) auto

lemma pollFirings_keeps:
  assumes "n \<le> length envs"
    and "\<forall>i<n. firingCheck (envs ! i) l (pollFirings (take i envs) job l sys) \<noteq> Some True"
  shows "sched (pollFirings (take n envs) job l sys) = sched sys"
  using assms
proof (induction n)
  case 0
  then show ?case by simp
next
  case (Suc n)
  then have n: "n < length envs" by simp
  from Suc have IH: "sched (pollFirings (take n envs) job l sys) = sched sys" by simp
  from Suc.prems(2) have
    chk: "firingCheck (envs ! n) l (pollFirings (take n envs) job l sys) \<noteq> Some True"
    by simp
  have "take (Suc n) envs = take n envs @ [envs ! n]"
    using n by (rule take_Suc_conv_app_nth)
  then show ?case
    using IH pollFiring_not_done [OF chk, of job]
    by (simp add: pollFirings_snoc)
qed

text \<open>
  C3. A live poll task of a league fires minute after minute. As long as the all-games-final
  check returned false in every firing so far, the scheduler is as it was at the start: the
  task is still live and registered. If the check returns false in the next firing too,
  that firing does not cancel the task either; if it returns true, that firing cancels the
  task and removes the league's registry entry.
\<close>

theorem poll_task_cancels_on_first_final_check:
  assumes "(job, l) \<in> set (liveJobs (sched sys))" and "n < length envs"
    and "\<forall>i<n. firingCheck (envs ! i) l (pollFirings (take i envs) job l sys) = Some False"
  shows "sched (pollFirings (take n envs) job l sys) = sched sys \<and>
         (firingCheck (envs ! n) l (pollFirings (take n envs) job l sys) = Some False \<longrightarrow>
            sched (pollFirings (take (Suc n) envs) job l sys) = sched sys) \<and>
         (firingCheck (envs ! n) l (pollFirings (take n envs) job l sys) = Some True \<longrightarrow>
            (job, l) \<notin> set (liveJobs (sched (pollFirings (take (Suc n) envs) job l sys))) \<and>
            scheduledLeagueJobs (sched (pollFirings (take (Suc n) envs) job l sys)) l = None)"
proof -
  let ?before = "pollFirings (take n envs) job l sys"
  from assms(3) have
    "\<forall>i<n. firingCheck (envs ! i) l (pollFirings (take i envs) job l sys) \<noteq> Some True"
    by simp
  with assms(2) have keep: "sched ?before = sched sys"
    by (intro pollFirings_keeps) simp_all
  with assms(1) have live: "(job, l) \<in> set (liveJobs (sched ?before))"
    by simp
  have "take (Suc n) envs = take n envs @ [envs ! n]"
    using assms(2) by (rule take_Suc_conv_app_nth)
  then have fire: "pollFirings (take (Suc n) envs) job l sys = pollFiring (envs ! n) job l ?before"
    using live by (simp add: pollFirings_snoc)
  have no: "sched (pollFirings (take (Suc n) envs) job l sys) = sched sys"
    if "firingCheck (envs ! n) l ?before = Some False"
  proof -
    from that have "firingCheck (envs ! n) l ?before \<noteq> Some True" by simp
    from pollFiring_not_done [OF this, of job] keep fire show ?thesis by simp
  qed
  have yes: "(job, l) \<notin> set (liveJobs (sched (pollFirings (take (Suc n) envs) job l sys))) \<and>
            scheduledLeagueJobs (sched (pollFirings (take (Suc n) envs) job l sys)) l = None"
    if "firingCheck (envs ! n) l ?before = Some True"
    using pollFiring_done [OF that, of job] fire by simp
  from keep no yes show ?thesis by blast
qed

theorem poll_task_cancels_on_first_final_check_witness:
  "(0, ''NFL'') \<in> set (liveJobs (sched pollingNFL)) \<and>
   firingCheck (envWith [mkEvent ''7'' 3600000 ''in'']) ''NFL'' pollingNFL = Some False \<and>
   firingCheck (envWith [mkEvent ''7'' 3600000 ''post'']) ''NFL''
     (pollFirings [envWith [mkEvent ''7'' 3600000 ''in'']] 0 ''NFL'' pollingNFL) = Some True \<and>
   sched (pollFirings [envWith [mkEvent ''7'' 3600000 ''in'']] 0 ''NFL'' pollingNFL)
     = sched pollingNFL \<and>
   (0, ''NFL'') \<notin> set (liveJobs (sched (pollFirings
        [envWith [mkEvent ''7'' 3600000 ''in''], envWith [mkEvent ''7'' 3600000 ''post'']]
        0 ''NFL'' pollingNFL))) \<and>
   scheduledLeagueJobs (sched (pollFirings
        [envWith [mkEvent ''7'' 3600000 ''in''], envWith [mkEvent ''7'' 3600000 ''post'']]
        0 ''NFL'' pollingNFL)) ''NFL'' = None"
proof -
  let ?live = "envWith [mkEvent ''7'' 3600000 ''in'']"
  let ?final = "envWith [mkEvent ''7'' 3600000 ''post'']"
  have running: "(0, ''NFL'') \<in> set (liveJobs (sched pollingNFL))"
    by code_simp
  have first: "firingCheck ?live ''NFL'' pollingNFL = Some False"
    by code_simp
  have second: "firingCheck ?final ''NFL'' (pollFirings [?live] 0 ''NFL'' pollingNFL) = Some True"
    by code_simp
  have len: "Suc 0 < length [?live, ?final]" by simp
  have before: "\<forall>i<Suc 0. firingCheck ([?live, ?final] ! i) ''NFL''
                  (pollFirings (take i [?live, ?final]) 0 ''NFL'' pollingNFL) = Some False"
    using first by simp
  from poll_task_cancels_on_first_final_check [OF running len before] second
  have "sched (pollFirings [?live] 0 ''NFL'' pollingNFL) = sched pollingNFL \<and>
        (0, ''NFL'') \<notin> set (liveJobs (sched (pollFirings [?live, ?final] 0 ''NFL'' pollingNFL))) \<and>
        scheduledLeagueJobs (sched (pollFirings [?live, ?final] 0 ''NFL'' pollingNFL)) ''NFL'' = None"
    by simp
  with running first second show ?thesis by blast
qed

text \<open>
  The check counts the rows the ingest of the same firing has left. After a failed request
  the league has none, so the check returns true and the task cancels itself.
\<close>

lemma failed_fetch_ends_poll_task:
  "firingCheck (envWith [mkEvent ''7'' 3600000 ''in'']\<lparr>axiosGet := fetchNflDown\<rparr>) ''NFL''
     (pollingNFL\<lparr>games := [mkGame ''NFL'' ''7'' 3600000 ''in'']\<rparr>) = Some True \<and>
   liveJobs (sched (pollFiring (envWith [mkEvent ''7'' 3600000 ''in'']\<lparr>axiosGet := fetchNflDown\<rparr>)
     0 ''NFL'' (pollingNFL\<lparr>games := [mkGame ''NFL'' ''7'' 3600000 ''in'']\<rparr>))) = []"
  by code_simp

subsection \<open>The daily run\<close>

lemma leagueMapStep_map_of:
  "map_of (leagueMapStep m row) L =
     (if L = league row
      then Some \<lparr>earliestStart =
                   (case map_of m L of None \<Rightarrow> start_time row
                    | Some i \<Rightarrow> min (earliestStart i) (start_time row)),
                 hasInProgress =
                   ((case map_of m L of None \<Rightarrow> False | Some i \<Rightarrow> hasInProgress i)
                    \<or> state row = ''in'')\<rparr>
      else map_of m L)"
  by (auto simp: leagueMapStep_def Let_def update_conv' min_def split: option.splits)

lemma leagueMapStep_distinct:
  "distinct (map fst m) \<Longrightarrow> distinct (map fst (leagueMapStep m row))"
  by (auto simp: leagueMapStep_def Let_def distinct_update split: option.splits)

lemma buildLeagueMap_snoc:
  "buildLeagueMap (rows @ [row]) = leagueMapStep (buildLeagueMap rows) row"
  by (simp add: buildLeagueMap_def)

lemma buildLeagueMap_distinct: "distinct (map fst (buildLeagueMap rows))"
proof (induction rows rule: rev_induct)
  case Nil
  then show ?case by (simp add: buildLeagueMap_def)
next
  case (snoc row rows)
  then show ?case by (simp add: buildLeagueMap_snoc leagueMapStep_distinct)
qed

lemma buildLeagueMap_map_of:
  "map_of (buildLeagueMap rows) L =
     (if filter (\<lambda>r. league r = L) rows = [] then None
      else Some \<lparr>earliestStart = Min (set (map start_time (filter (\<lambda>r. league r = L) rows))),
                 hasInProgress = (\<exists>r\<in>set (filter (\<lambda>r. league r = L) rows). state r = ''in'')\<rparr>)"
proof (induction rows rule: rev_induct)
  case Nil
  then show ?case by (simp add: buildLeagueMap_def)
next
  case (snoc row rows)
  show ?case
  proof (cases "league row = L")
    case False
    with snoc show ?thesis
      by (simp add: buildLeagueMap_snoc leagueMapStep_map_of)
  next
    case True
    show ?thesis
    proof (cases "filter (\<lambda>r. league r = L) rows = []")
      case e: True
      with True snoc show ?thesis
        by (simp add: buildLeagueMap_snoc leagueMapStep_map_of)
    next
      case ne: False
      have "Min (insert (start_time row) (set (map start_time (filter (\<lambda>r. league r = L) rows))))
                   = min (start_time row) (Min (set (map start_time (filter (\<lambda>r. league r = L) rows))))"
        using ne by (intro Min_insert) (auto simp: filter_empty_conv)
      with True ne snoc show ?thesis
        by (auto simp: buildLeagueMap_snoc leagueMapStep_map_of min.commute)
    qed
  qed
qed

lemma startFrequentPoll_other:
  "l \<noteq> L \<Longrightarrow> scheduledLeagueJobs (startFrequentPoll l s) L = scheduledLeagueJobs s L"
  by (simp add: startFrequentPoll_def Let_def cancel_def split: option.splits)

lemma startFrequentPoll_timers: "timers (startFrequentPoll l s) = timers s"
  by (simp add: startFrequentPoll_def Let_def cancel_def split: option.splits)

lemma startFrequentPoll_next: "nextJobId (startFrequentPoll l s) = Suc (nextJobId s)"
  by (simp add: startFrequentPoll_def Let_def cancel_def split: option.splits)

lemma scheduleLeague_other:
  "fst entry \<noteq> L \<Longrightarrow>
   scheduledLeagueJobs (scheduleLeague nowAt s entry) L = scheduledLeagueJobs s L \<and>
   timersFor L (scheduleLeague nowAt s entry) = timersFor L s"
  by (simp add: scheduleLeague_def Let_def timersFor_def startFrequentPoll_other
      startFrequentPoll_timers)

lemma scheduleLeague_next: "nextJobId s \<le> nextJobId (scheduleLeague nowAt s entry)"
  by (simp add: scheduleLeague_def Let_def startFrequentPoll_next)

lemma foldl_scheduleLeague_other:
  "L \<notin> fst ` set m \<Longrightarrow>
   scheduledLeagueJobs (foldl (scheduleLeague nowAt) s m) L = scheduledLeagueJobs s L \<and>
   timersFor L (foldl (scheduleLeague nowAt) s m) = timersFor L s"
proof (induction m arbitrary: s)
  case Nil
  then show ?case by simp
next
  case (Cons entry m)
  then have "fst entry \<noteq> L" and "L \<notin> fst ` set m" by auto
  from Cons.IH [OF this(2), of "scheduleLeague nowAt s entry"]
    scheduleLeague_other [OF this(1), of nowAt s]
  show ?case by simp
qed

lemma foldl_scheduleLeague_next:
  "nextJobId s \<le> nextJobId (foldl (scheduleLeague nowAt) s m)"
proof (induction m arbitrary: s)
  case Nil
  then show ?case by simp
next
  case (Cons entry m)
  from Cons.IH [of "scheduleLeague nowAt s entry"] scheduleLeague_next [of s nowAt entry]
  show ?case by simp
qed

lemma scheduleLeague_started:
  assumes "earliestStart info - 15 * 60000 < nowAt L \<or> hasInProgress info"
  shows "scheduledLeagueJobs (scheduleLeague nowAt s (L, info)) L = Some (nextJobId s) \<and>
         timersFor L (scheduleLeague nowAt s (L, info)) = timersFor L s"
  using assms
  by (auto simp: scheduleLeague_def Let_def timersFor_def startFrequentPoll_registry
      startFrequentPoll_timers)

lemma scheduleLeague_deferred:
  assumes "\<not> (earliestStart info - 15 * 60000 < nowAt L \<or> hasInProgress info)"
  shows "scheduledLeagueJobs (scheduleLeague nowAt s (L, info)) L = scheduledLeagueJobs s L \<and>
         timersFor L (scheduleLeague nowAt s (L, info))
           = timersFor L s @ [(earliestStart info - 15 * 60000, L)]"
  using assms
  by (auto simp: scheduleLeague_def Let_def timersFor_def)

lemma foldl_scheduleLeague_at:
  assumes "distinct (map fst m)" and "map_of m L = Some info"
  shows "if earliestStart info - 15 * 60000 < nowAt L \<or> hasInProgress info
         then (\<exists>j. nextJobId s \<le> j \<and>
                 scheduledLeagueJobs (foldl (scheduleLeague nowAt) s m) L = Some j) \<and>
              timersFor L (foldl (scheduleLeague nowAt) s m) = timersFor L s
         else scheduledLeagueJobs (foldl (scheduleLeague nowAt) s m) L = scheduledLeagueJobs s L \<and>
              timersFor L (foldl (scheduleLeague nowAt) s m)
                = timersFor L s @ [(earliestStart info - 15 * 60000, L)]"
proof -
  from assms(2) have "(L, info) \<in> set m" by (rule map_of_SomeD)
  then obtain m1 m2 where m: "m = m1 @ (L, info) # m2" by (auto dest: split_list)
  with assms(1) have n1: "L \<notin> fst ` set m1" and n2: "L \<notin> fst ` set m2" by auto
  let ?s1 = "foldl (scheduleLeague nowAt) s m1"
  let ?s2 = "scheduleLeague nowAt ?s1 (L, info)"
  have fold: "foldl (scheduleLeague nowAt) s m = foldl (scheduleLeague nowAt) ?s2 m2"
    by (simp add: m)
  note before = foldl_scheduleLeague_other [OF n1, of nowAt s]
  note after = foldl_scheduleLeague_other [OF n2, of nowAt ?s2]
  show ?thesis
  proof (cases "earliestStart info - 15 * 60000 < nowAt L \<or> hasInProgress info")
    case True
    from scheduleLeague_started [of info nowAt L ?s1, OF True] before after
    have "scheduledLeagueJobs (foldl (scheduleLeague nowAt) s m) L = Some (nextJobId ?s1)"
      and "timersFor L (foldl (scheduleLeague nowAt) s m) = timersFor L s"
      unfolding fold by simp_all
    moreover have "nextJobId s \<le> nextJobId ?s1" by (rule foldl_scheduleLeague_next)
    ultimately show ?thesis using True by auto
  next
    case False
    from scheduleLeague_deferred [of info nowAt L ?s1, OF False] before after
    have "scheduledLeagueJobs (foldl (scheduleLeague nowAt) s m) L = scheduledLeagueJobs s L"
      and "timersFor L (foldl (scheduleLeague nowAt) s m)
             = timersFor L s @ [(earliestStart info - 15 * 60000, L)]"
      unfolding fold by simp_all
    with False show ?thesis by auto
  qed
qed

text \<open>
  C4, as claimed, fails at equality: with one NHL game starting at 3600000 and the clock
  at 2700000, \<open>pollStartTime\<close> equals the clock reading, the test
  \<open>pollStartTime < now\<close> is false, and the daily run starts no poll task but schedules a
  one-shot job for 2700000.
\<close>

theorem poll_start_equal_now_is_deferred:
  "liveJobs (runDailySchedule today (clockAt 2700000) [mkGame ''NHL'' ''1'' 3600000 ''pre''] noJobs) = [] \<and>
   scheduledLeagueJobs
     (runDailySchedule today (clockAt 2700000) [mkGame ''NHL'' ''1'' 3600000 ''pre''] noJobs) ''NHL''
     = None \<and>
   timers (runDailySchedule today (clockAt 2700000) [mkGame ''NHL'' ''1'' 3600000 ''pre''] noJobs)
     = [(3600000 - 15 * 60000, ''NHL'')] \<and>
   (3600000 - 15 * 60000 :: int) = 2700000"
  by code_simp

text \<open>
  C4, amended: in a daily run, a league with a not-final game today whose
  \<open>pollStartTime\<close> (its earliest start minus 15 minutes) is strictly before the clock
  reading, or which has a live game, has its poll task started at once: afterwards the
  registry holds for it a job created in this run, which is its only live task, and no
  one-shot job was added for it. Every other such league, also one whose \<open>pollStartTime\<close>
  equals the clock reading, keeps its registry entry and live task as they were and gets a
  one-shot job at \<open>pollStartTime\<close>.
\<close>

theorem runDailySchedule_league:
  assumes "schedInv s" and "L \<in> set (map league (getNotFinalGamesToday ti tbl))"
  shows "let rowsL = filter (\<lambda>r. league r = L) (getNotFinalGamesToday ti tbl);
             pollStartTime = Min (set (map start_time rowsL)) - 15 * 60000;
             s' = runDailySchedule ti nowAt tbl s
         in if pollStartTime < nowAt L \<or> (\<exists>r\<in>set rowsL. state r = ''in'')
            then (\<exists>j. nextJobId s \<le> j \<and> scheduledLeagueJobs s' L = Some j \<and>
                      liveFor L s' = [(j, L)]) \<and>
                 timersFor L s' = timersFor L s
            else scheduledLeagueJobs s' L = scheduledLeagueJobs s L \<and>
                 liveFor L s' = liveFor L s \<and>
                 timersFor L s' = timersFor L s @ [(pollStartTime, L)]"
proof -
  let ?rows = "getNotFinalGamesToday ti tbl"
  let ?rowsL = "filter (\<lambda>r. league r = L) ?rows"
  let ?info = "\<lparr>earliestStart = Min (set (map start_time ?rowsL)),
                hasInProgress = (\<exists>r\<in>set ?rowsL. state r = ''in'')\<rparr>"
  let ?s' = "runDailySchedule ti nowAt tbl s"
  from assms(2) have ne: "?rows \<noteq> []" by auto
  from assms(2) have neL: "?rowsL \<noteq> []" by (auto simp: filter_empty_conv)
  have run: "?s' = foldl (scheduleLeague nowAt) s (buildLeagueMap ?rows)"
    using ne by (simp add: runDailySchedule_def Let_def)
  have entry: "map_of (buildLeagueMap ?rows) L = Some ?info"
    using neL by (simp add: buildLeagueMap_map_of)
  note at = foldl_scheduleLeague_at [OF buildLeagueMap_distinct entry, of nowAt s]
  have inv': "schedInv ?s'" using assms(1) by (rule schedInv_runDailySchedule)
  note live = schedInv_liveFor [OF assms(1), of L]
  note live' = schedInv_liveFor [OF inv', of L]
  show ?thesis
  proof (cases "Min (set (map start_time ?rowsL)) - 15 * 60000 < nowAt L
                \<or> (\<exists>r\<in>set ?rowsL. state r = ''in'')")
    case True
    with at obtain j where j: "nextJobId s \<le> j" "scheduledLeagueJobs ?s' L = Some j"
      and t: "timersFor L ?s' = timersFor L s"
      unfolding run by auto
    from live' j(2) have "liveFor L ?s' = [(j, L)]" by simp
    with j t True show ?thesis unfolding Let_def by auto
  next
    case False
    with at have r: "scheduledLeagueJobs ?s' L = scheduledLeagueJobs s L"
      and t: "timersFor L ?s' = timersFor L s @ [(Min (set (map start_time ?rowsL)) - 15 * 60000, L)]"
      unfolding run by auto
    from live live' r have "liveFor L ?s' = liveFor L s" by simp
    with r t False show ?thesis unfolding Let_def by auto
  qed
qed

theorem runDailySchedule_league_witness:
  "schedInv noJobs \<and>
   ''NFL'' \<in> set (map league (getNotFinalGamesToday today
       [mkGame ''NFL'' ''1'' 3600000 ''pre'', mkGame ''NHL'' ''2'' 7200000 ''pre''])) \<and>
   (\<exists>j. scheduledLeagueJobs
           (runDailySchedule today (clockAt 3000000)
              [mkGame ''NFL'' ''1'' 3600000 ''pre'', mkGame ''NHL'' ''2'' 7200000 ''pre''] noJobs)
           ''NFL'' = Some j \<and>
        liveFor ''NFL''
           (runDailySchedule today (clockAt 3000000)
              [mkGame ''NFL'' ''1'' 3600000 ''pre'', mkGame ''NHL'' ''2'' 7200000 ''pre''] noJobs)
           = [(j, ''NFL'')])"
proof -
  let ?tbl = "[mkGame ''NFL'' ''1'' 3600000 ''pre'', mkGame ''NHL'' ''2'' 7200000 ''pre'']"
  have inv: "schedInv noJobs" by (rule schedInv_noJobs)
  have rows: "filter (\<lambda>r. league r = ''NFL'') (getNotFinalGamesToday today ?tbl)
                = [mkGame ''NFL'' ''1'' 3600000 ''pre'']"
    by code_simp
  have today_has: "''NFL'' \<in> set (map league (getNotFinalGamesToday today ?tbl))"
    by code_simp
  have early: "Min (set (map start_time [mkGame ''NFL'' ''1'' 3600000 ''pre''])) - 15 * 60000
                 < clockAt 3000000 ''NFL''"
    by (simp add: mkGame_def clockAt_def)
  from runDailySchedule_league [OF inv today_has, of "clockAt 3000000"] early
  have "\<exists>j. scheduledLeagueJobs (runDailySchedule today (clockAt 3000000) ?tbl noJobs) ''NFL'' = Some j \<and>
        liveFor ''NFL'' (runDailySchedule today (clockAt 3000000) ?tbl noJobs) = [(j, ''NFL'')]"
    unfolding Let_def rows by auto
  with inv today_has show ?thesis by blast
qed

end
